theory Spec2Isabelle
  imports
    Main
    "HOL-Library.Word"
    "HOL-Library.Char_ord"
    "HOL-Library.List_Lexorder"
    "HOL-Library.Multiset"
begin

section \<open>The file system seen by the packer\<close>

text \<open>
  \<^verbatim>\<open>createXLSXFromDir(dirPath, xlsxPath)\<close> reads a directory tree and writes a ZIP
  archive. The tree is a value of \<open>fsnode\<close>; it does not change during a run, and the
  output path lies outside of it. Symbolic links are not modelled.

  A directory holds its entries in the order the operating system lists them, which is
  not specified. Faults of the environment are part of the tree: a file that cannot be
  opened, a file whose read fails after some bytes, a directory that cannot be listed,
  and a name whose \<^verbatim>\<open>stat\<close> fails with an error other than non-existence.
\<close>

type_synonym bytes = "8 word list"

type_synonym path = "string list"

datatype fsnode =
    Reg bytes
  | Unopenable
  | Unreadable bytes
  | Dir bool "(string \<times> fsnode) list"
  | NoStat

text \<open>\<^verbatim>\<open>info.IsDir()\<close>. The code never calls it on a failed \<^verbatim>\<open>stat\<close> except at
  line 161, which \<open>createXLSXFromDir\<close> treats apart.\<close>

fun IsDir :: "fsnode \<Rightarrow> bool" where
  "IsDir (Dir r es) = True"
| "IsDir n = False"

text \<open>\<^verbatim>\<open>os.Stat(filepath.Join(dirPath, name))\<close> for a name directly under the source
  directory: \<open>None\<close> is the not-exist error, \<open>Some NoStat\<close> any other error.\<close>

fun child :: "fsnode \<Rightarrow> string \<Rightarrow> fsnode option" where
  "child (Dir r es) nm = map_of es nm"
| "child n nm = None"

text \<open>\<^verbatim>\<open>os.Open\<close> followed by reading to the end: \<open>None\<close> when the open fails, else
  the bytes delivered and whether the read ended without error. A directory opens
  (when it is readable) and fails on the first read.\<close>

fun os_Open :: "fsnode \<Rightarrow> (bytes \<times> bool) option" where
  "os_Open (Reg b) = Some (b, True)"
| "os_Open Unopenable = None"
| "os_Open (Unreadable b) = Some (b, False)"
| "os_Open (Dir r es) = (if r then Some ([], False) else None)"
| "os_Open NoStat = None"


text \<open>Every node of the tree with its path below the root, a directory before its
  entries; the nodes that are not directories; and the regular files that can be read,
  with their bytes.\<close>

fun nodes :: "path \<Rightarrow> fsnode \<Rightarrow> (path \<times> fsnode) list" where
  "nodes p (Dir r es) = (p, Dir r es) # concat (map (\<lambda>e. nodes (p @ [fst e]) (snd e)) es)"
| "nodes p n = [(p, n)]"

definition leaves :: "path \<Rightarrow> fsnode \<Rightarrow> (path \<times> fsnode) list" where
  "leaves p n = filter (\<lambda>x. \<not> IsDir (snd x)) (nodes p n)"

fun file_bytes :: "path \<times> fsnode \<Rightarrow> (path \<times> bytes) list" where
  "file_bytes (q, Reg b) = [(q, b)]"
| "file_bytes (q, n) = []"

definition regular_files :: "path \<Rightarrow> fsnode \<Rightarrow> (path \<times> bytes) list" where
  "regular_files p n = concat (map file_bytes (nodes p n))"

section \<open>Paths\<close>

text \<open>A path below \<^verbatim>\<open>dirPath\<close> is the list of its components. \<^verbatim>\<open>filepath.Join\<close> appends
  a component, \<^verbatim>\<open>filepath.Rel(dirPath, path)\<close> joins the components with the separator
  of the operating system, \<^verbatim>\<open>filepath.ToSlash\<close> replaces that separator by a slash, and
  \<^verbatim>\<open>filepath.Base\<close> is the last component (for \<^verbatim>\<open>dirPath\<close> itself, its own last
  element, a parameter of the run).\<close>

datatype goos = Unix | Windows

fun Separator :: "goos \<Rightarrow> char" where
  "Separator Unix = CHR ''/''"
| "Separator Windows = CHR 0x5C"

fun join_with :: "char \<Rightarrow> path \<Rightarrow> string" where
  "join_with c [] = ''.''"
| "join_with c [x] = x"
| "join_with c (x # y # ys) = x @ c # join_with c (y # ys)"

definition Rel :: "goos \<Rightarrow> path \<Rightarrow> string" where
  "Rel os p = join_with (Separator os) p"

definition ToSlash :: "goos \<Rightarrow> string \<Rightarrow> string" where
  "ToSlash os s = map (\<lambda>c. if c = Separator os then CHR ''/'' else c) s"

definition Base :: "string \<Rightarrow> path \<Rightarrow> string" where
  "Base dirBase p = (if p = [] then dirBase else last p)"

section \<open>The archive writer and the state of a run\<close>

datatype compression = Store | Deflate

record entry =
  Name :: string
  Method :: compression
  Content :: bytes

datatype warning = MarkerMissing | MimetypeMissing

datatype deferred_call = CloseOut | CloseZip | CloseSrc

datatype io_call = WalkStep path | ZipCreate string | SrcOpen path | Copy string

record state =
  out_created :: bool
  out_open :: bool
  zip_open :: bool
  finalized :: bool
  src_open :: nat
  entries :: "entry list"
  warnings :: "warning list"
  deferred :: "deferred_call list"
  io_log :: "(io_call \<times> bool) list"

definition init_state :: state where
  "init_state = \<lparr>out_created = False, out_open = False, zip_open = False,
     finalized = False, src_open = 0, entries = [], warnings = [], deferred = [],
     io_log = []\<rparr>"

text \<open>The parameters of a run: what \<^verbatim>\<open>os.Stat(dirPath)\<close> finds, the platform, the last
  element of \<^verbatim>\<open>dirPath\<close>, whether \<^verbatim>\<open>os.Create(xlsxPath)\<close> succeeds, and the faults of
  the output: the entry names whose creation fails, and for an entry name the number of
  bytes after which writing its content fails.\<close>

record world =
  source :: "fsnode option"
  os :: goos
  dirBase :: string
  create_ok :: bool
  hdr_fails :: "string \<Rightarrow> bool"
  wr_limit :: "string \<Rightarrow> nat option"

definition warn :: "warning \<Rightarrow> state \<Rightarrow> state" where
  "warn x s = s\<lparr>warnings := warnings s @ [x]\<rparr>"

definition logged :: "io_call \<Rightarrow> bool \<Rightarrow> state \<Rightarrow> state" where
  "logged c ok s = s\<lparr>io_log := io_log s @ [(c, ok)]\<rparr>"

definition defer_call :: "deferred_call \<Rightarrow> state \<Rightarrow> state" where
  "defer_call c s = s\<lparr>deferred := c # deferred s\<rparr>"

text \<open>\<^verbatim>\<open>zipWriter.CreateHeader\<close> and \<^verbatim>\<open>zipWriter.Create\<close>: a new entry at the end of the
  archive; the writer returned is the position of that entry.\<close>

definition zip_CreateHeader :: "world \<Rightarrow> string \<Rightarrow> compression \<Rightarrow> state \<Rightarrow> (nat \<times> state) option" where
  "zip_CreateHeader w nm m s =
     (if hdr_fails w nm then None
      else Some (length (entries s),
                 s\<lparr>entries := entries s @ [\<lparr>Name = nm, Method = m, Content = []\<rparr>]\<rparr>))"

definition zip_Create :: "world \<Rightarrow> string \<Rightarrow> state \<Rightarrow> (nat \<times> state) option" where
  "zip_Create w nm s = zip_CreateHeader w nm Deflate s"

definition zip_write :: "nat \<Rightarrow> bytes \<Rightarrow> state \<Rightarrow> state" where
  "zip_write i bs s =
     (if i < length (entries s)
      then s\<lparr>entries := (entries s)[i := (entries s ! i)\<lparr>Content := Content (entries s ! i) @ bs\<rparr>]\<rparr>
      else s)"

text \<open>\<^verbatim>\<open>io.Copy(writer, file)\<close>: the result says whether the copy ended without error.\<close>

definition io_Copy :: "world \<Rightarrow> string \<Rightarrow> nat \<Rightarrow> bytes \<times> bool \<Rightarrow> state \<Rightarrow> bool \<times> state" where
  "io_Copy w nm i h s =
     (case wr_limit w nm of
        Some k \<Rightarrow> (False, zip_write i (take k (fst h)) s)
      | None \<Rightarrow> (snd h, zip_write i (fst h) s))"

section \<open>The tree walk\<close>

datatype cause =
    LstatFailed path
  | ReadDirFailed path
  | EntryFailed string
  | OpenFailed path
  | CopyFailed path

datatype error =
    NotFound
  | NotADirectory
  | CreateOutputFailed
  | MimetypeHeaderFailed
  | MimetypeOpenFailed
  | MimetypeCopyFailed
  | WalkError cause

datatype outcome = Returned "error option" | Panicked

text \<open>\<^verbatim>\<open>filepath.Walk\<close> of the Go library for a callback that never returns
  \<^verbatim>\<open>SkipDir\<close> or \<^verbatim>\<open>SkipAll\<close>: a node whose \<^verbatim>\<open>lstat\<close> fails is handed to the callback
  with the error; a directory is handed to the callback together with the error of
  listing it, and when neither failed its names are walked in sorted order; the first
  error of the callback ends the walk.\<close>

function walk :: "(path \<Rightarrow> fsnode \<Rightarrow> cause option \<Rightarrow> 's \<Rightarrow> cause option \<times> 's) \<Rightarrow> path \<Rightarrow> fsnode \<Rightarrow> 's \<Rightarrow> cause option \<times> 's"
  and walk_names :: "(path \<Rightarrow> fsnode \<Rightarrow> cause option \<Rightarrow> 's \<Rightarrow> cause option \<times> 's) \<Rightarrow> path \<Rightarrow> (string \<times> fsnode) list \<Rightarrow> 's \<Rightarrow> cause option \<times> 's"
where
  "walk fn p (Dir r es) s =
     (let err = (if r then None else Some (ReadDirFailed p));
          (err1, s1) = fn p (Dir r es) err s
      in if err \<noteq> None \<or> err1 \<noteq> None then (err1, s1)
         else walk_names fn p (sort_key fst es) s1)"
| "walk fn p NoStat s = fn p NoStat (Some (LstatFailed p)) s"
| "walk fn p (Reg b) s = fn p (Reg b) None s"
| "walk fn p Unopenable s = fn p Unopenable None s"
| "walk fn p (Unreadable b) s = fn p (Unreadable b) None s"
| "walk_names fn p [] s = (None, s)"
| "walk_names fn p (e # rest) s =
     (case walk fn (p @ [fst e]) (snd e) s of
        (Some err, s') \<Rightarrow> (Some err, s')
      | (None, s') \<Rightarrow> walk_names fn p rest s')"
  by pat_completeness auto
termination
proof -
  have len: "size_list f ys = sum_mset (image_mset f (mset ys)) + length ys"
    for f :: "string \<times> fsnode \<Rightarrow> nat" and ys
    by (induction ys) auto
  have sorted_size: "size_list f (sort_key fst ys) = size_list f ys"
    for f :: "string \<times> fsnode \<Rightarrow> nat" and ys
    by (simp add: len)
  show ?thesis
    by (relation "measure (\<lambda>x. case x of
          Inl (fn, p, n, s) \<Rightarrow> 2 * size n
        | Inr (fn, p, es, s) \<Rightarrow> 2 * size_list (size_prod (\<lambda>_. 0) size) es + 1)")
       (auto simp: sorted_size)
qed

section \<open>createXLSXFromDir\<close>

text \<open>The callback of the walk, lines 203 to 235. The source file it opens is closed
  when the callback returns.\<close>

definition walkFn :: "world \<Rightarrow> path \<Rightarrow> fsnode \<Rightarrow> cause option \<Rightarrow> state \<Rightarrow> cause option \<times> state" where
  "walkFn w p info err s =
     (case err of
        Some e \<Rightarrow> (Some e, logged (WalkStep p) False s)
      | None \<Rightarrow>
          if IsDir info then (None, s)
          else if Base (dirBase w) p = ''mimetype'' then (None, s)
          else
            let relPath = ToSlash (os w) (Rel (os w) p) in
            case zip_Create w relPath s of
              None \<Rightarrow> (Some (EntryFailed relPath), logged (ZipCreate relPath) False s)
            | Some (writer, s1) \<Rightarrow>
                (case os_Open info of
                   None \<Rightarrow> (Some (OpenFailed p),
                            logged (SrcOpen p) False (logged (ZipCreate relPath) True s1))
                 | Some fileToZip \<Rightarrow>
                     let s2 = logged (SrcOpen p) True (logged (ZipCreate relPath) True s1);
                         s3 = s2\<lparr>src_open := Suc (src_open s2)\<rparr>;
                         (ok, s4) = io_Copy w relPath writer fileToZip s3;
                         s5 = logged (Copy relPath) ok s4
                     in (if ok then None else Some (CopyFailed p),
                         s5\<lparr>src_open := src_open s5 - 1\<rparr>)))"

text \<open>Lines 181 to 201: the root-level mimetype entry, written first and stored.\<close>

definition addMimetype :: "world \<Rightarrow> fsnode \<Rightarrow> state \<Rightarrow> error option \<times> state" where
  "addMimetype w dirInfo s =
     (case child dirInfo ''mimetype'' of
        None \<Rightarrow> (None, warn MimetypeMissing s)
      | Some n \<Rightarrow>
          (case zip_CreateHeader w ''mimetype'' Store s of
             None \<Rightarrow> (Some MimetypeHeaderFailed, logged (ZipCreate ''mimetype'') False s)
           | Some (writer, s1) \<Rightarrow>
               (case os_Open n of
                  None \<Rightarrow> (Some MimetypeOpenFailed,
                           logged (SrcOpen [''mimetype'']) False
                             (logged (ZipCreate ''mimetype'') True s1))
                | Some mimetypeFile \<Rightarrow>
                    let s2 = logged (SrcOpen [''mimetype'']) True
                               (logged (ZipCreate ''mimetype'') True s1);
                        s3 = defer_call CloseSrc (s2\<lparr>src_open := Suc (src_open s2)\<rparr>);
                        (ok, s4) = io_Copy w ''mimetype'' writer mimetypeFile s3
                    in (if ok then None else Some MimetypeCopyFailed,
                        logged (Copy ''mimetype'') ok s4))))"

text \<open>Lines 181 to 239, everything after the two \<^verbatim>\<open>defer\<close> statements.\<close>

definition body :: "world \<Rightarrow> fsnode \<Rightarrow> state \<Rightarrow> error option \<times> state" where
  "body w dirInfo s =
     (case addMimetype w dirInfo s of
        (Some e, s1) \<Rightarrow> (Some e, s1)
      | (None, s1) \<Rightarrow>
          (case walk (walkFn w) [] dirInfo s1 of
             (Some c, s2) \<Rightarrow> (Some (WalkError c), s2)
           | (None, s2) \<Rightarrow> (None, s2)))"

text \<open>The deferred calls run when the function returns, the last one deferred first.
  Closing the archive writer writes the central directory to the output file, which
  reaches the file only while the file is open.\<close>

fun run_call :: "deferred_call \<Rightarrow> state \<Rightarrow> state" where
  "run_call CloseSrc s = s\<lparr>src_open := src_open s - 1\<rparr>"
| "run_call CloseZip s = s\<lparr>zip_open := False, finalized := zip_open s \<and> out_open s\<rparr>"
| "run_call CloseOut s = s\<lparr>out_open := False\<rparr>"

fun run_calls :: "deferred_call list \<Rightarrow> state \<Rightarrow> state" where
  "run_calls [] s = s"
| "run_calls (c # cs) s = run_calls cs (run_call c s)"

definition run_deferred :: "state \<Rightarrow> state" where
  "run_deferred s = run_calls (deferred s) (s\<lparr>deferred := []\<rparr>)"

definition createXLSXFromDir :: "world \<Rightarrow> outcome \<times> state" where
  "createXLSXFromDir w =
     (case source w of
        None \<Rightarrow> (Returned (Some NotFound), init_state)
      | Some dirInfo \<Rightarrow>
          if dirInfo = NoStat then (Panicked, init_state)
          else if \<not> IsDir dirInfo then (Returned (Some NotADirectory), init_state)
          else
            let s0 = (if child dirInfo ''[Content_Types].xml'' = None
                      then warn MarkerMissing init_state else init_state)
            in if \<not> create_ok w then (Returned (Some CreateOutputFailed), s0)
               else
                 let s1 = defer_call CloseOut (s0\<lparr>out_created := True, out_open := True\<rparr>);
                     s2 = defer_call CloseZip (s1\<lparr>zip_open := True\<rparr>);
                     (r, s3) = body w dirInfo s2
                 in (Returned r, run_deferred s3))"

section \<open>What a run is expected to read and to write\<close>

text \<open>The name an archive entry gets for the file at a path below the source
  directory.\<close>

definition archive_name :: "world \<Rightarrow> path \<Rightarrow> string" where
  "archive_name w p = ToSlash (os w) (Rel (os w) p)"

definition deflated :: "world \<Rightarrow> path \<times> bytes \<Rightarrow> entry" where
  "deflated w x = \<lparr>Name = archive_name w (fst x), Method = Deflate, Content = snd x\<rparr>"

text \<open>The entries for the readable regular files below a node whose last path component
  is not \<^verbatim>\<open>mimetype\<close>.\<close>

definition packed :: "world \<Rightarrow> path \<Rightarrow> fsnode \<Rightarrow> entry list" where
  "packed w p n =
     map (deflated w) (filter (\<lambda>x. Base (dirBase w) (fst x) \<noteq> ''mimetype'') (regular_files p n))"

text \<open>No input or output call fails for a file: it is skipped by name, or its entry is
  created, it opens and is read to the end, and its bytes are written.\<close>

definition file_ok :: "world \<Rightarrow> path \<Rightarrow> fsnode \<Rightarrow> bool" where
  "file_ok w p n =
     (Base (dirBase w) p = ''mimetype'' \<or>
      (\<not> hdr_fails w (archive_name w p) \<and>
       (case os_Open n of None \<Rightarrow> False | Some h \<Rightarrow> snd h) \<and>
       wr_limit w (archive_name w p) = None))"

text \<open>No call fails anywhere below a node: every directory can be listed, every name
  can be examined, and no call fails for a file.\<close>

fun walk_ok :: "world \<Rightarrow> path \<Rightarrow> fsnode \<Rightarrow> bool" where
  "walk_ok w p (Dir r es) = (r \<and> list_all (\<lambda>e. walk_ok w (p @ [fst e]) (snd e)) es)"
| "walk_ok w p NoStat = False"
| "walk_ok w p n = file_ok w p n"

definition mimetype_ok :: "world \<Rightarrow> fsnode \<Rightarrow> bool" where
  "mimetype_ok w dirInfo =
     (case child dirInfo ''mimetype'' of
        None \<Rightarrow> True
      | Some n \<Rightarrow>
          \<not> hdr_fails w ''mimetype'' \<and>
          (case os_Open n of None \<Rightarrow> False | Some h \<Rightarrow> snd h) \<and>
          wr_limit w ''mimetype'' = None)"

text \<open>The part of the state that the tree walk leaves alone.\<close>

definition frame :: "state \<Rightarrow> bool \<times> bool \<times> bool \<times> bool \<times> nat \<times> warning list \<times> deferred_call list" where
  "frame s = (out_created s, out_open s, zip_open s, finalized s, src_open s, warnings s, deferred s)"

text \<open>The state after the output file and the archive writer have been opened and their
  closing deferred (line 179).\<close>

definition started :: "fsnode \<Rightarrow> state" where
  "started d =
     defer_call CloseZip
       ((defer_call CloseOut
          ((if child d ''[Content_Types].xml'' = None then warn MarkerMissing init_state
            else init_state)\<lparr>out_created := True, out_open := True\<rparr>))\<lparr>zip_open := True\<rparr>)"

text \<open>Two trees show the same state of the directory: the same names in every directory,
  each with the same content, whatever the order in which the directories list them.\<close>

fun same_files :: "fsnode \<Rightarrow> fsnode \<Rightarrow> bool" where
  "same_files (Dir r es) (Dir r' es') =
     (r = r' \<and> distinct (map fst es) \<and> distinct (map fst es') \<and>
      set (map fst es) = set (map fst es') \<and>
      list_all (\<lambda>e. list_all (\<lambda>e'. fst e = fst e' \<longrightarrow> same_files (snd e) (snd e')) es') es)"
| "same_files (Dir r es) n' = False"
| "same_files n (Dir r' es') = False"
| "same_files n n' = (n = n')"

section \<open>Concrete runs\<close>

text \<open>A run on a Unix system where no call on the output fails.\<close>

definition plain_world :: "fsnode option \<Rightarrow> world" where
  "plain_world src = \<lparr>source = src, os = Unix, dirBase = ''unzipped'', create_ok = True,
     hdr_fails = (\<lambda>nm. False), wr_limit = (\<lambda>nm. None)\<rparr>"

definition sheet_tree :: fsnode where
  "sheet_tree = Dir True
     [(''xl'', Dir True [(''workbook.xml'', Reg [1, 2])]),
      (''mimetype'', Reg [7, 7, 7]),
      (''[Content_Types].xml'', Reg [3])]"


text \<open>A tree whose second file cannot be opened.\<close>

definition faulty_tree :: fsnode where
  "faulty_tree = Dir True [(''a.xml'', Reg [1]), (''b.xml'', Unopenable), (''c.xml'', Reg [2])]"

text \<open>The tree \<open>sheet_tree\<close> with its root listed in another order.\<close>

definition shuffled_tree :: fsnode where
  "shuffled_tree = Dir True
     [(''[Content_Types].xml'', Reg [3]),
      (''xl'', Dir True [(''workbook.xml'', Reg [1, 2])]),
      (''mimetype'', Reg [7, 7, 7])]"

text \<open>A tree whose only file is named mimetype and lies in a subdirectory.\<close>

definition nested_tree :: fsnode where
  "nested_tree = Dir True [(''sub'', Dir True [(''mimetype'', Reg [1])])]"

text \<open>A root-level mimetype file and three other regular files, one of them named
  mimetype in a subdirectory.\<close>

definition four_files_tree :: fsnode where
  "four_files_tree = Dir True
     [(''mimetype'', Reg [7, 7, 7]),
      (''a.xml'', Reg [1]),
      (''b.xml'', Reg [2, 2]),
      (''sub'', Dir True [(''mimetype'', Reg [9, 9, 9, 9])])]"

text \<open>A tree whose root holds a directory named mimetype and no file.\<close>

definition mdir_tree :: fsnode where
  "mdir_tree = Dir True [(''mimetype'', Dir True [])]"

section \<open>Properties of the walk\<close>

lemma walk_rel_gen:
  fixes fn :: "path \<Rightarrow> fsnode \<Rightarrow> cause option \<Rightarrow> 's \<Rightarrow> cause option \<times> 's"
  shows "(\<And>q m e t. (q, m) \<in> set (nodes p n) \<Longrightarrow> Q t \<Longrightarrow>
            (case fn q m e t of (None, t') \<Rightarrow> Q t' | (Some c, t') \<Rightarrow> F c t')) \<Longrightarrow>
         Q s \<Longrightarrow> (case walk fn p n s of (None, t') \<Rightarrow> Q t' | (Some c, t') \<Rightarrow> F c t')"
    and "(\<And>q m e t. (q, m) \<in> (\<Union>x\<in>set es. set (nodes (p @ [fst x]) (snd x))) \<Longrightarrow> Q t \<Longrightarrow>
            (case fn q m e t of (None, t') \<Rightarrow> Q t' | (Some c, t') \<Rightarrow> F c t')) \<Longrightarrow>
         Q s \<Longrightarrow> (case walk_names fn p es s of (None, t') \<Rightarrow> Q t' | (Some c, t') \<Rightarrow> F c t')"
proof (induction fn p n s and fn p es s rule: walk_walk_names.induct)
  case (1 fn p r es s)
  have here: "case fn p (Dir r es) e s of (None, t') \<Rightarrow> Q t' | (Some c, t') \<Rightarrow> F c t'" for e
    using "1.prems" by simp
  show ?case
  proof (cases "fn p (Dir r es) (if r then None else Some (ReadDirFailed p)) s")
    case (Pair err1 s1)
    show ?thesis
    proof (cases "r \<and> err1 = None")
      case True
      with Pair here[of None] have q1: "Q s1" by simp
      have "case walk_names fn p (sort_key fst es) s1 of (None, t') \<Rightarrow> Q t' | (Some c, t') \<Rightarrow> F c t'"
      proof (rule "1.IH"[OF refl refl Pair[symmetric]])
        show "\<not> ((if r then None else Some (ReadDirFailed p)) \<noteq> None \<or> err1 \<noteq> None)" using True by simp
        show "Q s1" by (rule q1)
      next
        fix q m e t
        assume "(q, m) \<in> (\<Union>x\<in>set (sort_key fst es). set (nodes (p @ [fst x]) (snd x)))" and "Q t"
        then show "case fn q m e t of (None, t') \<Rightarrow> Q t' | (Some c, t') \<Rightarrow> F c t'"
          using "1.prems"(1)[of q m t e] by auto
      qed
      with True Pair show ?thesis by simp
    next
      case False
      with Pair here[of "if r then None else Some (ReadDirFailed p)"] show ?thesis
        by (auto split: option.splits if_splits)
    qed
  qed
next
  case (7 fn p e rest s)
  have first: "case walk fn (p @ [fst e]) (snd e) s of (None, t') \<Rightarrow> Q t' | (Some c, t') \<Rightarrow> F c t'"
    by (rule "7.IH"(1)) (use "7.prems" in auto)
  show ?case
  proof (cases "walk fn (p @ [fst e]) (snd e) s")
    case (Pair r1 s1)
    show ?thesis
    proof (cases r1)
      case None
      with Pair first have q1: "Q s1" by simp
      have "case walk_names fn p rest s1 of (None, t') \<Rightarrow> Q t' | (Some c, t') \<Rightarrow> F c t'"
        by (rule "7.IH"(2)[OF Pair[symmetric] None _ q1]) (use "7.prems" in auto)
      with Pair None show ?thesis by simp
    next
      case (Some c)
      with Pair first show ?thesis by simp
    qed
  qed
qed simp_all

lemmas step_defs = walkFn_def logged_def zip_Create_def zip_CreateHeader_def zip_write_def
  io_Copy_def Let_def

lemma walkFn_frame:
  "walkFn w p n e s = (r, s') \<Longrightarrow>
     out_created s' = out_created s \<and> out_open s' = out_open s \<and> zip_open s' = zip_open s \<and>
     finalized s' = finalized s \<and> src_open s' = src_open s \<and> warnings s' = warnings s \<and>
     deferred s' = deferred s"
  by (auto simp: step_defs split: option.splits if_splits prod.splits)

lemma walkFn_dir: "walkFn w p (Dir r es) None s = (None, s)"
  by (simp add: walkFn_def)

lemma walkFn_err: "fst (walkFn w p n (Some e) s) = Some e"
  by (simp add: walkFn_def)

lemma walkFn_ok_iff:
  "\<not> IsDir n \<Longrightarrow> fst (walkFn w p n None s) = None \<longleftrightarrow> file_ok w p n"
  by (auto simp: step_defs file_ok_def archive_name_def split: option.splits if_splits prod.splits)

lemma walkFn_entries_ok:
  "\<not> IsDir n \<Longrightarrow> file_ok w p n \<Longrightarrow>
     entries (snd (walkFn w p n None s)) = entries s @ packed w p n"
  apply (cases n)
  apply (auto simp: step_defs file_ok_def archive_name_def packed_def regular_files_def deflated_def split: option.splits if_splits prod.splits)
  done

lemma walkFn_appends:
  "\<exists>es. entries (snd (walkFn w p n e s)) = entries s @ es \<and>
        (\<forall>x\<in>set es. Method x = Deflate \<and> Name x = archive_name w p \<and> \<not> IsDir n)"
  by (auto simp: step_defs archive_name_def split: option.splits if_splits prod.splits)

lemma walkFn_log:
  "\<forall>x\<in>set (io_log s). snd x \<Longrightarrow>
     (case walkFn w p n e s of
        (None, t) \<Rightarrow> \<forall>x\<in>set (io_log t). snd x
      | (Some c, t) \<Rightarrow> \<exists>l k. io_log t = l @ [(k, False)] \<and> (\<forall>x\<in>set l. snd x))"
  by (auto simp: step_defs split: option.splits if_splits prod.splits)

lemma walk_frame: "frame (snd (walk (walkFn w) p n s)) = frame s"
proof -
  have "case walk (walkFn w) p n s of (None, t') \<Rightarrow> frame t' = frame s | (Some c, t') \<Rightarrow> frame t' = frame s"
  proof (rule walk_rel_gen(1)[where Q = "\<lambda>t. frame t = frame s" and F = "\<lambda>c t. frame t = frame s"])
    fix q m e t
    assume "frame t = frame s"
    moreover have "frame (snd (walkFn w q m e t)) = frame t"
      using walkFn_frame[of w q m e t] by (cases "walkFn w q m e t") (simp add: frame_def)
    ultimately show "case walkFn w q m e t of (None, t') \<Rightarrow> frame t' = frame s | (Some c, t') \<Rightarrow> frame t' = frame s"
      by (auto split: prod.splits option.splits)
  qed simp
  then show ?thesis by (auto split: prod.splits option.splits)
qed

lemma walk_log:
  assumes "\<forall>x\<in>set (io_log s). snd x"
  shows "case walk (walkFn w) p n s of
           (None, t) \<Rightarrow> \<forall>x\<in>set (io_log t). snd x
         | (Some c, t) \<Rightarrow> \<exists>l k. io_log t = l @ [(k, False)] \<and> (\<forall>x\<in>set l. snd x)"
  by (rule walk_rel_gen(1)[where Q = "\<lambda>t. \<forall>x\<in>set (io_log t). snd x"
        and F = "\<lambda>c t. \<exists>l k. io_log t = l @ [(k, False)] \<and> (\<forall>x\<in>set l. snd x)"])
     (use assms walkFn_log in auto)

text \<open>The walk only appends entries, and each one it appends is deflated and named after
  a node that is not a directory.\<close>

lemma walk_appends:
  "\<exists>es. entries (snd (walk (walkFn w) p n s)) = entries s @ es \<and>
        (\<forall>x\<in>set es. Method x = Deflate \<and> (\<exists>y\<in>set (leaves p n). Name x = archive_name w (fst y)))"
proof -
  let ?Q = "\<lambda>t::state. \<exists>es. entries t = entries s @ es \<and>
        (\<forall>x\<in>set es. Method x = Deflate \<and> (\<exists>y\<in>set (leaves p n). Name x = archive_name w (fst y)))"
  have "case walk (walkFn w) p n s of (None, t') \<Rightarrow> ?Q t' | (Some c, t') \<Rightarrow> ?Q t'"
  proof (rule walk_rel_gen(1)[where Q = ?Q and F = "\<lambda>c. ?Q"])
    fix q m e t
    assume mem: "(q, m) \<in> set (nodes p n)" and "?Q t"
    then obtain es where es: "entries t = entries s @ es"
      "\<forall>x\<in>set es. Method x = Deflate \<and> (\<exists>y\<in>set (leaves p n). Name x = archive_name w (fst y))"
      by blast
    from walkFn_appends[of w q m e t] obtain es' where es': "entries (snd (walkFn w q m e t)) = entries t @ es'"
      "\<forall>x\<in>set es'. Method x = Deflate \<and> Name x = archive_name w q \<and> \<not> IsDir m" by blast
    have "(q, m) \<in> set (leaves p n)" if "es' \<noteq> []"
      using that es'(2) mem by (cases es') (auto simp: leaves_def)
    then have new: "\<forall>x\<in>set es'. Method x = Deflate \<and> (\<exists>y\<in>set (leaves p n). Name x = archive_name w (fst y))"
      using es'(2) by (metis empty_iff empty_set fst_conv)
    have "entries (snd (walkFn w q m e t)) = entries s @ (es @ es')"
      using es(1) es'(1) by simp
    moreover have "\<forall>x\<in>set (es @ es'). Method x = Deflate \<and> (\<exists>y\<in>set (leaves p n). Name x = archive_name w (fst y))"
      using es(2) new by (simp add: ball_Un)
    ultimately have "?Q (snd (walkFn w q m e t))" by blast
    then show "case walkFn w q m e t of (None, t') \<Rightarrow> ?Q t' | (Some c, t') \<Rightarrow> ?Q t'"
      by (auto split: prod.splits option.splits)
  qed simp
  then show ?thesis by (auto split: prod.splits option.splits)
qed

lemma walk_ok_iff:
  "fst (walk (walkFn w) p n s) = None \<longleftrightarrow> walk_ok w p n"
  "fst (walk_names (walkFn w) p es s) = None \<longleftrightarrow> list_all (\<lambda>e. walk_ok w (p @ [fst e]) (snd e)) es"
proof (induction "walkFn w" p n s and "walkFn w" p es s rule: walk_walk_names.induct)
  case (1 p r es s)
  show ?case
  proof (cases r)
    case True
    have "fst (walk (walkFn w) p (Dir r es) s) = fst (walk_names (walkFn w) p (sort_key fst es) s)"
      using True by (simp add: walkFn_dir)
    also have "\<dots> = None \<longleftrightarrow> list_all (\<lambda>e. walk_ok w (p @ [fst e]) (snd e)) (sort_key fst es)"
      using "1.hyps"[OF refl refl, of None s] True by (simp add: walkFn_dir)
    finally show ?thesis using True by (simp add: list_all_iff)
  next
    case False
    then show ?thesis by (simp add: walkFn_err split: prod.splits)
  qed
next
  case (2 p s)
  then show ?case by (simp add: walkFn_err)
next
  case (3 p b s)
  then show ?case using walkFn_ok_iff[of "Reg b" w p s] by simp
next
  case (4 p s)
  then show ?case using walkFn_ok_iff[of Unopenable w p s] by simp
next
  case (5 p b s)
  then show ?case using walkFn_ok_iff[of "Unreadable b" w p s] by simp
next
  case (6 p s)
  then show ?case by simp
next
  case (7 p e rest s)
  show ?case
  proof (cases "walk (walkFn w) (p @ [fst e]) (snd e) s")
    case (Pair r1 s1)
    show ?thesis
    proof (cases r1)
      case None
      then show ?thesis using Pair "7.hyps"(1) "7.hyps"(2)[OF Pair[symmetric] None] by simp
    next
      case (Some c)
      then show ?thesis using Pair "7.hyps"(1) by simp
    qed
  qed
qed

lemma concat_map_concat: "concat (map f (concat xss)) = concat (map (\<lambda>xs. concat (map f xs)) xss)"
  by (induction xss) auto

lemma regular_files_Dir:
  "regular_files p (Dir r es) = concat (map (\<lambda>e. regular_files (p @ [fst e]) (snd e)) es)"
  by (simp add: regular_files_def concat_map_concat comp_def)

lemma packed_Dir:
  "packed w p (Dir r es) = concat (map (\<lambda>e. packed w (p @ [fst e]) (snd e)) es)"
  by (simp add: packed_def regular_files_Dir filter_concat map_concat comp_def)

lemma mset_concat_map: "mset (concat (map h xs)) = sum_list (map (\<lambda>x. mset (h x)) xs)"
  by (induction xs) auto

lemma sum_list_sort_key:
  fixes g :: "'a \<Rightarrow> 'b multiset"
  shows "sum_list (map g (sort_key k xs)) = sum_list (map g xs)"
proof -
  have "sum_list (map g ys) = sum_mset (image_mset g (mset ys))" for ys
    by (induction ys) auto
  then show ?thesis by simp
qed

lemma walk_entries:
  "walk_ok w p n \<Longrightarrow>
     mset (entries (snd (walk (walkFn w) p n s))) = mset (entries s) + mset (packed w p n)"
  "list_all (\<lambda>e. walk_ok w (p @ [fst e]) (snd e)) es \<Longrightarrow>
     mset (entries (snd (walk_names (walkFn w) p es s))) =
       mset (entries s) + sum_list (map (\<lambda>e. mset (packed w (p @ [fst e]) (snd e))) es)"
proof (induction "walkFn w" p n s and "walkFn w" p es s rule: walk_walk_names.induct)
  case (1 p r es s)
  then have r: r and all: "list_all (\<lambda>e. walk_ok w (p @ [fst e]) (snd e)) (sort_key fst es)"
    by (simp_all add: list_all_iff)
  have "snd (walk (walkFn w) p (Dir r es) s) = snd (walk_names (walkFn w) p (sort_key fst es) s)"
    using r by (simp add: walkFn_dir)
  then show ?case
    using "1.hyps"[OF refl refl, of None s] r all
    by (simp add: walkFn_dir packed_Dir mset_concat_map sum_list_sort_key)
next
  case (2 p s)
  then show ?case by simp
next
  case (3 p b s)
  then show ?case using walkFn_entries_ok[of "Reg b" w p s] by simp
next
  case (4 p s)
  then show ?case using walkFn_entries_ok[of Unopenable w p s] by simp
next
  case (5 p b s)
  then show ?case using walkFn_entries_ok[of "Unreadable b" w p s] by simp
next
  case (6 p s)
  then show ?case by simp
next
  case (7 p e rest s)
  then have ok1: "walk_ok w (p @ [fst e]) (snd e)"
    and okr: "list_all (\<lambda>e. walk_ok w (p @ [fst e]) (snd e)) rest" by simp_all
  obtain r1 s1 where Pair: "walk (walkFn w) (p @ [fst e]) (snd e) s = (r1, s1)" by force
  have None: "r1 = None" using walk_ok_iff(1)[of w "p @ [fst e]" "snd e" s] ok1 Pair by simp
  have e1: "mset (entries s1) = mset (entries s) + mset (packed w (p @ [fst e]) (snd e))"
    using "7.hyps"(1)[OF ok1] Pair by simp
  show ?case
    using "7.hyps"(2)[OF Pair[symmetric] None okr] Pair None e1 by (simp add: ac_simps)
qed

section \<open>Properties of a run\<close>

lemmas mime_defs = addMimetype_def logged_def zip_CreateHeader_def zip_write_def
  io_Copy_def defer_call_def warn_def Let_def

lemma addMimetype_handles:
  "addMimetype w d s = (r, s') \<Longrightarrow>
     out_created s' = out_created s \<and> out_open s' = out_open s \<and> zip_open s' = zip_open s \<and>
     finalized s' = finalized s \<and>
     ((src_open s' = src_open s \<and> deferred s' = deferred s) \<or>
      (src_open s' = Suc (src_open s) \<and> deferred s' = CloseSrc # deferred s))"
  by (auto simp: mime_defs split: option.splits if_splits prod.splits)

lemma addMimetype_ok_iff: "fst (addMimetype w d s) = None \<longleftrightarrow> mimetype_ok w d"
  by (auto simp: mime_defs mimetype_ok_def split: option.splits if_splits prod.splits)

lemma addMimetype_absent:
  "child d ''mimetype'' = None \<Longrightarrow> addMimetype w d s = (None, warn MimetypeMissing s)"
  by (simp add: addMimetype_def)

lemma addMimetype_entries:
  "child d ''mimetype'' = Some (Reg b) \<Longrightarrow> \<not> hdr_fails w ''mimetype'' \<Longrightarrow>
   wr_limit w ''mimetype'' = None \<Longrightarrow>
     fst (addMimetype w d s) = None \<and>
     entries (snd (addMimetype w d s)) =
       entries s @ [\<lparr>Name = ''mimetype'', Method = Store, Content = b\<rparr>] \<and>
     warnings (snd (addMimetype w d s)) = warnings s"
  by (auto simp: mime_defs split: option.splits if_splits prod.splits)

lemma addMimetype_present_ok:
  "child d ''mimetype'' = Some n \<Longrightarrow> mimetype_ok w d \<Longrightarrow>
     \<exists>b. n = Reg b \<and> \<not> hdr_fails w ''mimetype'' \<and> wr_limit w ''mimetype'' = None"
  by (cases n) (auto simp: mimetype_ok_def split: if_splits)

lemma addMimetype_log:
  "\<forall>x\<in>set (io_log s). snd x \<Longrightarrow>
     (case addMimetype w d s of
        (None, t) \<Rightarrow> \<forall>x\<in>set (io_log t). snd x
      | (Some c, t) \<Rightarrow> \<exists>l k. io_log t = l @ [(k, False)] \<and> (\<forall>x\<in>set l. snd x))"
  by (auto simp: mime_defs split: option.splits if_splits prod.splits)

lemma addMimetype_appends:
  "\<exists>es. entries (snd (addMimetype w d s)) = entries s @ es \<and>
        (\<forall>x\<in>set es. Method x = Store \<and> Name x = ''mimetype'')"
  by (auto simp: mime_defs split: option.splits if_splits prod.splits)

lemma run_deferred_keeps:
  "entries (run_deferred s) = entries s" "warnings (run_deferred s) = warnings s"
  "io_log (run_deferred s) = io_log s" "out_created (run_deferred s) = out_created s"
proof -
  have "entries (run_calls cs t) = entries t \<and> warnings (run_calls cs t) = warnings t \<and>
        io_log (run_calls cs t) = io_log t \<and> out_created (run_calls cs t) = out_created t" for cs t
  proof (induction cs arbitrary: t)
    case (Cons c cs)
    then show ?case by (cases c) simp_all
  qed simp
  then show "entries (run_deferred s) = entries s" "warnings (run_deferred s) = warnings s"
    "io_log (run_deferred s) = io_log s" "out_created (run_deferred s) = out_created s"
    by (simp_all add: run_deferred_def)
qed

lemma create_unfold:
  "source w = Some d \<Longrightarrow> IsDir d \<Longrightarrow> create_ok w \<Longrightarrow>
     createXLSXFromDir w =
       (Returned (fst (body w d (started d))), run_deferred (snd (body w d (started d))))"
  by (cases d) (auto simp: createXLSXFromDir_def started_def Let_def split: prod.splits)

lemma started_simps:
  "entries (started d) = []" "io_log (started d) = []" "out_created (started d)"
  "out_open (started d)" "zip_open (started d)" "src_open (started d) = 0"
  "deferred (started d) = [CloseZip, CloseOut]"
  "warnings (started d) = (if child d ''[Content_Types].xml'' = None then [MarkerMissing] else [])"
  by (simp_all add: started_def defer_call_def warn_def init_state_def)

lemma body_ok_iff: "fst (body w d s) = None \<longleftrightarrow> mimetype_ok w d \<and> walk_ok w [] d"
proof (cases "addMimetype w d s")
  case (Pair r1 s1)
  show ?thesis
  proof (cases r1)
    case None
    then have "mimetype_ok w d" using addMimetype_ok_iff[of w d s] Pair by simp
    moreover have "fst (body w d s) = None \<longleftrightarrow> fst (walk (walkFn w) [] d s1) = None"
      using Pair None by (simp add: body_def split: prod.splits option.splits)
    ultimately show ?thesis using walk_ok_iff(1)[of w "[]" d s1] by simp
  next
    case (Some e)
    then have "\<not> mimetype_ok w d" using addMimetype_ok_iff[of w d s] Pair by simp
    then show ?thesis using Pair Some by (simp add: body_def)
  qed
qed

lemma body_state:
  "snd (body w d s) =
     (case addMimetype w d s of
        (Some e, s1) \<Rightarrow> s1
      | (None, s1) \<Rightarrow> snd (walk (walkFn w) [] d s1))"
  by (simp add: body_def split: prod.splits option.splits)

lemmas run_defs = createXLSXFromDir_def body_def addMimetype_def walkFn_def init_state_def
  warn_def logged_def defer_call_def zip_Create_def zip_CreateHeader_def zip_write_def
  io_Copy_def run_deferred_def Base_def ToSlash_def Rel_def Let_def

lemma sheet_run:
  "createXLSXFromDir (plain_world (Some sheet_tree)) =
    (Returned None,
     \<lparr>out_created = True, out_open = False, zip_open = False, finalized = True, src_open = 0,
      entries = [\<lparr>Name = ''mimetype'', Method = Store, Content = [7, 7, 7]\<rparr>,
                 \<lparr>Name = ''[Content_Types].xml'', Method = Deflate, Content = [3]\<rparr>,
                 \<lparr>Name = ''xl/workbook.xml'', Method = Deflate, Content = [1, 2]\<rparr>],
      warnings = [], deferred = [],
      io_log = [(ZipCreate ''mimetype'', True), (SrcOpen [''mimetype''], True),
                (Copy ''mimetype'', True),
                (ZipCreate ''[Content_Types].xml'', True),
                (SrcOpen [''[Content_Types].xml''], True),
                (Copy ''[Content_Types].xml'', True),
                (ZipCreate ''xl/workbook.xml'', True),
                (SrcOpen [''xl'', ''workbook.xml''], True),
                (Copy ''xl/workbook.xml'', True)]\<rparr>)"
  by (simp add: run_defs plain_world_def sheet_tree_def)

section \<open>The claims\<close>

lemma body_handles:
  fixes w d
  defines "t \<equiv> snd (body w d (started d))"
  shows "out_created t \<and> out_open t \<and> zip_open t \<and>
     ((src_open t = 0 \<and> deferred t = [CloseZip, CloseOut]) \<or>
      (src_open t = Suc 0 \<and> deferred t = [CloseSrc, CloseZip, CloseOut]))"
proof -
  obtain r1 s1 where Pair: "addMimetype w d (started d) = (r1, s1)" by force
  note h = addMimetype_handles[OF Pair]
  have s1: "out_created s1 \<and> out_open s1 \<and> zip_open s1 \<and>
     ((src_open s1 = 0 \<and> deferred s1 = [CloseZip, CloseOut]) \<or>
      (src_open s1 = Suc 0 \<and> deferred s1 = [CloseSrc, CloseZip, CloseOut]))"
    using h by (auto simp: started_simps)
  show ?thesis
  proof (cases r1)
    case None
    then have "t = snd (walk (walkFn w) [] d s1)" using Pair by (simp add: t_def body_state)
    then have "frame t = frame s1" by (simp add: walk_frame)
    then show ?thesis using s1 by (simp add: frame_def)
  next
    case (Some e)
    then have "t = s1" using Pair by (simp add: t_def body_state)
    then show ?thesis using s1 by simp
  qed
qed

lemma run_deferred_closes:
  assumes "out_open t" "zip_open t"
    "(src_open t = 0 \<and> deferred t = [CloseZip, CloseOut]) \<or>
     (src_open t = Suc 0 \<and> deferred t = [CloseSrc, CloseZip, CloseOut])"
  shows "\<not> out_open (run_deferred t) \<and> \<not> zip_open (run_deferred t) \<and>
         finalized (run_deferred t) \<and> src_open (run_deferred t) = 0 \<and>
         deferred (run_deferred t) = []"
  using assms by (auto simp: run_deferred_def)

text \<open>Claim C9. On every exit path after the output file was created, the error paths
  included, the archive writer has been closed while the output file was still open, the
  output file has been closed, no source file is left open and no deferred call is
  pending.\<close>

theorem handles_released:
  "out_created (snd (createXLSXFromDir w)) \<longrightarrow>
     \<not> out_open (snd (createXLSXFromDir w)) \<and> \<not> zip_open (snd (createXLSXFromDir w)) \<and>
     finalized (snd (createXLSXFromDir w)) \<and> src_open (snd (createXLSXFromDir w)) = 0 \<and>
     deferred (snd (createXLSXFromDir w)) = []"
proof (cases "\<exists>d. source w = Some d \<and> IsDir d \<and> create_ok w")
  case True
  then obtain d where d: "source w = Some d" "IsDir d" "create_ok w" by blast
  show ?thesis
    unfolding create_unfold[OF d] snd_conv
    using run_deferred_closes[of "snd (body w d (started d))"] body_handles[of w d] by blast
next
  case False
  then have "\<not> out_created (snd (createXLSXFromDir w))"
    by (auto simp: createXLSXFromDir_def init_state_def warn_def Let_def split: option.splits)
  then show ?thesis by simp
qed

theorem handles_released_witness:
  "out_created (snd (createXLSXFromDir (plain_world (Some sheet_tree)))) \<and>
   \<not> out_open (snd (createXLSXFromDir (plain_world (Some sheet_tree)))) \<and>
   \<not> zip_open (snd (createXLSXFromDir (plain_world (Some sheet_tree)))) \<and>
   finalized (snd (createXLSXFromDir (plain_world (Some sheet_tree))))"
proof -
  have h: "out_created (snd (createXLSXFromDir (plain_world (Some sheet_tree))))"
    by (simp add: sheet_run)
  show ?thesis using handles_released[of "plain_world (Some sheet_tree)"] h by simp
qed

text \<open>Claim C3. A source path that does not exist gives the not-found error, one that
  exists and is not a directory gives the not-a-directory error, and in both cases the
  run ends in the initial state: the output file was not created.\<close>

theorem precondition_errors:
  "(source w = None \<longrightarrow> fst (createXLSXFromDir w) = Returned (Some NotFound)) \<and>
   (\<forall>n. source w = Some n \<and> n \<noteq> NoStat \<and> \<not> IsDir n \<longrightarrow>
        fst (createXLSXFromDir w) = Returned (Some NotADirectory)) \<and>
   (source w = None \<or> (\<exists>n. source w = Some n \<and> n \<noteq> NoStat \<and> \<not> IsDir n) \<longrightarrow>
        snd (createXLSXFromDir w) = init_state \<and> \<not> out_created (snd (createXLSXFromDir w)))"
  by (auto simp: createXLSXFromDir_def init_state_def)

theorem precondition_errors_witness:
  "source (plain_world None) = None \<and>
   fst (createXLSXFromDir (plain_world None)) = Returned (Some NotFound) \<and>
   \<not> out_created (snd (createXLSXFromDir (plain_world None))) \<and>
   source (plain_world (Some (Reg [1]))) = Some (Reg [1]) \<and>
   fst (createXLSXFromDir (plain_world (Some (Reg [1])))) = Returned (Some NotADirectory) \<and>
   \<not> out_created (snd (createXLSXFromDir (plain_world (Some (Reg [1])))))"
proof -
  have a: "source (plain_world None) = None" by (simp add: plain_world_def)
  have b: "source (plain_world (Some (Reg [1]))) = Some (Reg [1]) \<and> Reg [1] \<noteq> NoStat \<and> \<not> IsDir (Reg [1])"
    by (simp add: plain_world_def)
  show ?thesis
    using precondition_errors[of "plain_world None"]
      precondition_errors[of "plain_world (Some (Reg [1]))"] a b
    by (simp add: init_state_def)
qed

text \<open>Claim C10. When the stat of the source path fails with an error other than
  non-existence, the function does not return an error value: it panics.\<close>

theorem stat_failure_panics:
  "source w = Some NoStat \<Longrightarrow> fst (createXLSXFromDir w) = Panicked"
  by (simp add: createXLSXFromDir_def)

theorem stat_failure_panics_witness:
  "source (plain_world (Some NoStat)) = Some NoStat \<and>
   fst (createXLSXFromDir (plain_world (Some NoStat))) = Panicked"
proof -
  have h: "source (plain_world (Some NoStat)) = Some NoStat" by (simp add: plain_world_def)
  show ?thesis using stat_failure_panics[OF h] h by simp
qed

lemma walk_keeps_first:
  assumes "entries s = x # xs"
  shows "\<exists>ys. entries (snd (walk (walkFn w) p n s)) = x # ys"
  using walk_appends[of w p n s] assms by auto

lemma mimetype_first_gen:
  assumes "source w = Some (Dir r es)" "map_of es ''mimetype'' = Some (Reg b)" "create_ok w"
    "\<not> hdr_fails w ''mimetype''" "wr_limit w ''mimetype'' = None"
  shows "\<exists>rest. entries (snd (createXLSXFromDir w)) =
           \<lparr>Name = ''mimetype'', Method = Store, Content = b\<rparr> # rest"
proof -
  let ?d = "Dir r es"
  have c: "child ?d ''mimetype'' = Some (Reg b)" using assms(2) by simp
  note m = addMimetype_entries[OF c assms(4,5), of "started ?d"]
  obtain s1 where s1: "addMimetype w ?d (started ?d) = (None, s1)"
    and e1: "entries s1 = [\<lparr>Name = ''mimetype'', Method = Store, Content = b\<rparr>]"
    using m by (cases "addMimetype w ?d (started ?d)") (auto simp: started_simps)
  have "snd (body w ?d (started ?d)) = snd (walk (walkFn w) [] ?d s1)"
    using s1 by (simp add: body_state)
  then show ?thesis
    using walk_keeps_first[OF e1, of w "[]" ?d] create_unfold[OF assms(1) _ assms(3)]
    by (simp add: run_deferred_keeps)
qed

text \<open>Claim C1. When the source directory holds a regular file named mimetype directly
  under its root, the archive of a successful run starts with an entry named mimetype,
  stored, whose content is the bytes of that file.\<close>

theorem mimetype_first:
  assumes "source w = Some (Dir r es)" "map_of es ''mimetype'' = Some (Reg b)"
    "fst (createXLSXFromDir w) = Returned None"
  shows "\<exists>rest. entries (snd (createXLSXFromDir w)) =
           \<lparr>Name = ''mimetype'', Method = Store, Content = b\<rparr> # rest"
proof -
  have ok: "create_ok w"
    using assms(1,3) by (auto simp: createXLSXFromDir_def Let_def split: if_splits)
  have "fst (body w (Dir r es) (started (Dir r es))) = None"
    using assms(3) create_unfold[OF assms(1) _ ok] by simp
  then have "mimetype_ok w (Dir r es)" unfolding body_ok_iff by (rule conjunct1)
  then have "\<not> hdr_fails w ''mimetype'' \<and> wr_limit w ''mimetype'' = None"
    using assms(2) by (simp add: mimetype_ok_def)
  then show ?thesis using mimetype_first_gen[OF assms(1,2) ok] by simp
qed

theorem mimetype_first_witness:
  "fst (createXLSXFromDir (plain_world (Some sheet_tree))) = Returned None \<and>
   (\<exists>rest. entries (snd (createXLSXFromDir (plain_world (Some sheet_tree)))) =
      \<lparr>Name = ''mimetype'', Method = Store, Content = [7, 7, 7]\<rparr> # rest)"
proof -
  have a: "source (plain_world (Some sheet_tree)) =
      Some (Dir True [(''xl'', Dir True [(''workbook.xml'', Reg [1, 2])]),
        (''mimetype'', Reg [7, 7, 7]), (''[Content_Types].xml'', Reg [3])])"
    by (simp add: plain_world_def sheet_tree_def)
  have b: "map_of [(''xl'', Dir True [(''workbook.xml'', Reg [1, 2])]),
        (''mimetype'', Reg [7, 7, 7]), (''[Content_Types].xml'', Reg [3])] ''mimetype'' =
      Some (Reg [7, 7, 7])" by simp
  have c: "fst (createXLSXFromDir (plain_world (Some sheet_tree))) = Returned None"
    by (simp add: sheet_run)
  show ?thesis using mimetype_first[OF a b c] c by simp
qed






lemma body_entries_absent:
  assumes "child d ''mimetype'' = None" "walk_ok w [] d" "entries s = []"
  shows "mset (entries (snd (body w d s))) = mset (packed w [] d)"
  using walk_entries(1)[OF assms(2), of "warn MimetypeMissing s"] assms(1,3)
  by (simp add: body_state addMimetype_absent warn_def)

lemma body_entries_present:
  assumes "child d ''mimetype'' = Some n" "mimetype_ok w d" "walk_ok w [] d" "entries s = []"
  shows "\<exists>b. n = Reg b \<and>
           mset (entries (snd (body w d s))) =
             add_mset \<lparr>Name = ''mimetype'', Method = Store, Content = b\<rparr> (mset (packed w [] d))"
proof -
  obtain b where n: "n = Reg b" and h: "\<not> hdr_fails w ''mimetype''" "wr_limit w ''mimetype'' = None"
    using addMimetype_present_ok[OF assms(1,2)] by blast
  have c: "child d ''mimetype'' = Some (Reg b)" using assms(1) n by simp
  note m = addMimetype_entries[OF c h, of s]
  obtain s1 where s1: "addMimetype w d s = (None, s1)"
    and e1: "entries s1 = [\<lparr>Name = ''mimetype'', Method = Store, Content = b\<rparr>]"
    using m assms(4) by (cases "addMimetype w d s") auto
  have "mset (entries (snd (body w d s))) = mset (entries s1) + mset (packed w [] d)"
    using walk_entries(1)[OF assms(3), of s1] s1 by (simp add: body_state)
  then show ?thesis using n e1 by simp
qed



lemma regular_files_nodes:
  "(q, b) \<in> set (regular_files p n) \<longleftrightarrow> (q, Reg b) \<in> set (nodes p n)"
proof -
  have "(q, b) \<in> set (file_bytes x) \<longleftrightarrow> x = (q, Reg b)" for x
    by (cases x rule: file_bytes.cases) auto
  then show ?thesis by (auto simp: regular_files_def)
qed

lemma packed_sound:
  "x \<in> set (packed w p n) \<Longrightarrow>
     \<exists>q b. (q, Reg b) \<in> set (nodes p n) \<and> Name x = archive_name w q \<and> Content x = b \<and>
           Method x = Deflate"
  by (auto simp: packed_def deflated_def regular_files_nodes)

lemma archive_name_single: "archive_name w [''mimetype''] = ''mimetype''"
  by (cases "os w") (simp_all add: archive_name_def Rel_def ToSlash_def)

lemma child_node:
  "child d nm = Some n \<Longrightarrow> \<not> IsDir n \<Longrightarrow> ([nm], n) \<in> set (nodes [] d)"
proof (cases d)
  case (Dir r es)
  assume "child d nm = Some n" "\<not> IsDir n"
  then have "(nm, n) \<in> set es" using Dir by (auto dest: map_of_SomeD)
  moreover have "nodes [nm] n = [([nm], n)]" using \<open>\<not> IsDir n\<close> by (cases n) simp_all
  ultimately show ?thesis using Dir by force
qed simp_all

lemma success_started:
  assumes "source w = Some d" "fst (createXLSXFromDir w) = Returned None"
  shows "IsDir d \<and> create_ok w"
  using assms by (auto simp: createXLSXFromDir_def Let_def split: if_splits)

lemma body_appends:
  "\<exists>es. entries (snd (body w d s)) = entries s @ es \<and>
     (\<forall>x\<in>set es. Method x = Deflate \<longrightarrow> (\<exists>y\<in>set (leaves [] d). Name x = archive_name w (fst y)))"
proof -
  obtain r1 s1 where Pair: "addMimetype w d s = (r1, s1)" by force
  obtain es1 where es1: "entries s1 = entries s @ es1" "\<forall>x\<in>set es1. Method x = Store"
    using addMimetype_appends[of w d s] Pair by auto
  show ?thesis
  proof (cases r1)
    case None
    obtain es2 where es2: "entries (snd (walk (walkFn w) [] d s1)) = entries s1 @ es2"
      "\<forall>x\<in>set es2. Method x = Deflate \<and> (\<exists>y\<in>set (leaves [] d). Name x = archive_name w (fst y))"
      using walk_appends[of w "[]" d s1] by blast
    have "entries (snd (body w d s)) = entries s @ (es1 @ es2)"
      using Pair None es1(1) es2(1) by (simp add: body_state)
    moreover have "\<forall>x\<in>set (es1 @ es2). Method x = Deflate \<longrightarrow>
        (\<exists>y\<in>set (leaves [] d). Name x = archive_name w (fst y))"
      using es1(2) es2(2) by auto
    ultimately show ?thesis by blast
  next
    case (Some e)
    then have "entries (snd (body w d s)) = entries s @ es1"
      using Pair es1(1) by (simp add: body_state)
    moreover have "\<forall>x\<in>set es1. Method x = Deflate \<longrightarrow>
        (\<exists>y\<in>set (leaves [] d). Name x = archive_name w (fst y))"
      using es1(2) by auto
    ultimately show ?thesis by blast
  qed
qed

lemma entries_before_start:
  "\<not> (\<exists>d. source w = Some d \<and> IsDir d \<and> create_ok w) \<Longrightarrow> entries (snd (createXLSXFromDir w)) = []"
  by (auto simp: createXLSXFromDir_def init_state_def warn_def Let_def split: option.splits)

text \<open>What holds of directories in every run: the callback adds no entry for a
  directory, and each deflated entry, that is each entry the walk wrote, is named after a
  node that is not a directory; after a successful run every entry of the archive is the
  entry of a regular file of the tree, with its bytes.\<close>

lemma directories_not_packed:
  assumes "source w = Some d"
  shows "(\<forall>p r es e s. entries (snd (walkFn w p (Dir r es) e s)) = entries s) \<and>
         (\<forall>x\<in>set (entries (snd (createXLSXFromDir w))). Method x = Deflate \<longrightarrow>
            (\<exists>y\<in>set (leaves [] d). Name x = archive_name w (fst y))) \<and>
         (fst (createXLSXFromDir w) = Returned None \<longrightarrow>
            (\<forall>x\<in>set (entries (snd (createXLSXFromDir w))).
               \<exists>q b. (q, Reg b) \<in> set (nodes [] d) \<and> Name x = archive_name w q \<and> Content x = b))"
proof (intro conjI allI impI)
  fix p r es e s
  show "entries (snd (walkFn w p (Dir r es) e s)) = entries s"
    by (cases e) (simp_all add: walkFn_def logged_def)
next
  show "\<forall>x\<in>set (entries (snd (createXLSXFromDir w))). Method x = Deflate \<longrightarrow>
            (\<exists>y\<in>set (leaves [] d). Name x = archive_name w (fst y))"
  proof (cases "IsDir d \<and> create_ok w")
    case True
    then show ?thesis
      using create_unfold[OF assms, of] body_appends[of w d "started d"]
      by (auto simp: run_deferred_keeps started_simps)
  next
    case False
    then show ?thesis using entries_before_start[of w] assms by auto
  qed
next
  assume ok: "fst (createXLSXFromDir w) = Returned None"
  then have st: "IsDir d" "create_ok w" using success_started[OF assms] by simp_all
  note u = create_unfold[OF assms st]
  have b: "mimetype_ok w d" "walk_ok w [] d"
    using ok u body_ok_iff[of w d "started d"] by simp_all
  have e: "entries (snd (createXLSXFromDir w)) = entries (snd (body w d (started d)))"
    using u by (simp add: run_deferred_keeps)
  show "\<forall>x\<in>set (entries (snd (createXLSXFromDir w))).
          \<exists>q b. (q, Reg b) \<in> set (nodes [] d) \<and> Name x = archive_name w q \<and> Content x = b"
  proof
    fix x assume x: "x \<in> set (entries (snd (createXLSXFromDir w)))"
    then have xm: "x \<in># mset (entries (snd (body w d (started d))))" using e by simp
    show "\<exists>q b. (q, Reg b) \<in> set (nodes [] d) \<and> Name x = archive_name w q \<and> Content x = b"
    proof (cases "child d ''mimetype''")
      case None
      then have "x \<in> set (packed w [] d)"
        using xm body_entries_absent[OF None b(2), of "started d"] by (simp add: started_simps)
      then show ?thesis using packed_sound by blast
    next
      case (Some n)
      obtain c where c: "n = Reg c"
        "mset (entries (snd (body w d (started d)))) =
           add_mset \<lparr>Name = ''mimetype'', Method = Store, Content = c\<rparr> (mset (packed w [] d))"
        using body_entries_present[OF Some b, of "started d"] by (auto simp: started_simps)
      then consider "x = \<lparr>Name = ''mimetype'', Method = Store, Content = c\<rparr>" | "x \<in> set (packed w [] d)"
        using xm by auto
      then show ?thesis
      proof cases
        case 1
        have "([''mimetype''], Reg c) \<in> set (nodes [] d)"
          using child_node[OF Some] c(1) by simp
        then show ?thesis using 1 by (auto simp: archive_name_single)
      next
        case 2
        then show ?thesis using packed_sound by blast
      qed
    qed
  qed
qed

text \<open>Unless a directory named mimetype lies directly under the root, every entry of
  every run, the failed ones included, is named after a node that is not a directory.\<close>

lemma addMimetype_appends_present:
  "\<exists>es. entries (snd (addMimetype w d s)) = entries s @ es \<and>
        (es \<noteq> [] \<longrightarrow> child d ''mimetype'' \<noteq> None) \<and>
        (\<forall>x\<in>set es. Name x = ''mimetype'')"
  by (auto simp: mime_defs split: option.splits if_splits prod.splits)

lemma body_names_leaves:
  assumes "\<And>n. child d ''mimetype'' = Some n \<Longrightarrow> \<not> IsDir n"
  shows "\<exists>es. entries (snd (body w d s)) = entries s @ es \<and>
     (\<forall>x\<in>set es. \<exists>y\<in>set (leaves [] d). Name x = archive_name w (fst y))"
proof -
  obtain r1 s1 where Pair: "addMimetype w d s = (r1, s1)" by force
  obtain es1 where es1: "entries s1 = entries s @ es1" "es1 \<noteq> [] \<longrightarrow> child d ''mimetype'' \<noteq> None"
    "\<forall>x\<in>set es1. Name x = ''mimetype''"
    using addMimetype_appends_present[of w d s] Pair by auto
  have m: "\<forall>x\<in>set es1. \<exists>y\<in>set (leaves [] d). Name x = archive_name w (fst y)"
  proof
    fix x assume x: "x \<in> set es1"
    then have "child d ''mimetype'' \<noteq> None" using es1(2) by auto
    then obtain n where n: "child d ''mimetype'' = Some n" by auto
    then have nd: "\<not> IsDir n" using assms by simp
    then have "([''mimetype''], n) \<in> set (leaves [] d)"
      using child_node[OF n nd] by (simp add: leaves_def)
    moreover have "Name x = archive_name w [''mimetype'']"
      using es1(3) x by (simp add: archive_name_single)
    ultimately show "\<exists>y\<in>set (leaves [] d). Name x = archive_name w (fst y)" by force
  qed
  show ?thesis
  proof (cases r1)
    case None
    obtain es2 where es2: "entries (snd (walk (walkFn w) [] d s1)) = entries s1 @ es2"
      "\<forall>x\<in>set es2. Method x = Deflate \<and> (\<exists>y\<in>set (leaves [] d). Name x = archive_name w (fst y))"
      using walk_appends[of w "[]" d s1] by blast
    have "entries (snd (body w d s)) = entries s @ (es1 @ es2)"
      using Pair None es1(1) es2(1) by (simp add: body_state)
    moreover have "\<forall>x\<in>set (es1 @ es2). \<exists>y\<in>set (leaves [] d). Name x = archive_name w (fst y)"
      using m es2(2) by auto
    ultimately show ?thesis by blast
  next
    case (Some e)
    then have "entries (snd (body w d s)) = entries s @ es1"
      using Pair es1(1) by (simp add: body_state)
    then show ?thesis using m by blast
  qed
qed

lemma entries_name_leaves:
  assumes "source w = Some d" "\<And>n. child d ''mimetype'' = Some n \<Longrightarrow> \<not> IsDir n"
  shows "\<forall>x\<in>set (entries (snd (createXLSXFromDir w))).
           \<exists>y\<in>set (leaves [] d). Name x = archive_name w (fst y)"
proof (cases "IsDir d \<and> create_ok w")
  case True
  then show ?thesis
    using create_unfold[OF assms(1)] body_names_leaves[of d w "started d"] assms(2)
    by (auto simp: run_deferred_keeps started_simps)
next
  case False
  then show ?thesis using entries_before_start[of w] assms(1) by auto
qed

text \<open>Claim C7 fails on the code. Lines 181 to 198 do not test whether the root-level
  mimetype is a directory, as the callback of the walk does at line 207: for a root that
  holds only a directory named mimetype the entry is created and stored, the copy fails,
  the run returns that error, and the deferred close leaves an archive whose one entry
  stands for a directory.\<close>

theorem mimetype_directory_packed:
  "child mdir_tree ''mimetype'' = Some (Dir True []) \<and> leaves [] mdir_tree = [] \<and>
   createXLSXFromDir (plain_world (Some mdir_tree)) =
     (Returned (Some MimetypeCopyFailed),
      \<lparr>out_created = True, out_open = False, zip_open = False, finalized = True, src_open = 0,
       entries = [\<lparr>Name = ''mimetype'', Method = Store, Content = []\<rparr>],
       warnings = [MarkerMissing], deferred = [],
       io_log = [(ZipCreate ''mimetype'', True), (SrcOpen [''mimetype''], True),
                 (Copy ''mimetype'', False)]\<rparr>)"
  by (simp add: run_defs plain_world_def mdir_tree_def leaves_def)

lemma body_log:
  "case body w d (started d) of
     (None, t) \<Rightarrow> \<forall>x\<in>set (io_log t). snd x
   | (Some c, t) \<Rightarrow> \<exists>l k. io_log t = l @ [(k, False)] \<and> (\<forall>x\<in>set l. snd x)"
proof -
  have l0: "\<forall>x\<in>set (io_log (started d)). snd x" by (simp add: started_simps)
  obtain r1 s1 where Pair: "addMimetype w d (started d) = (r1, s1)" by force
  note m = addMimetype_log[OF l0, of w d]
  show ?thesis
  proof (cases r1)
    case None
    then have l1: "\<forall>x\<in>set (io_log s1). snd x" using m Pair by simp
    show ?thesis
      using walk_log[OF l1, of w "[]" d] Pair None
      by (auto simp: body_def split: prod.splits option.splits)
  next
    case (Some e)
    then show ?thesis using m Pair by (simp add: body_def)
  qed
qed

lemma body_walk_error:
  "mimetype_ok w d \<Longrightarrow> \<not> walk_ok w [] d \<Longrightarrow> \<exists>c. fst (body w d s) = Some (WalkError c)"
proof -
  assume a: "mimetype_ok w d" "\<not> walk_ok w [] d"
  obtain r1 s1 where Pair: "addMimetype w d s = (r1, s1)" by force
  have r1: "r1 = None" using a(1) addMimetype_ok_iff[of w d s] Pair by simp
  obtain r2 s2 where W: "walk (walkFn w) [] d s1 = (r2, s2)" by force
  have "r2 \<noteq> None" using a(2) walk_ok_iff(1)[of w "[]" d s1] W by simp
  then show ?thesis using Pair r1 W by (auto simp: body_def)
qed

lemma faulty_run:
  "createXLSXFromDir (plain_world (Some faulty_tree)) =
    (Returned (Some (WalkError (OpenFailed [''b.xml'']))),
     \<lparr>out_created = True, out_open = False, zip_open = False, finalized = True, src_open = 0,
      entries = [\<lparr>Name = ''a.xml'', Method = Deflate, Content = [1]\<rparr>,
                 \<lparr>Name = ''b.xml'', Method = Deflate, Content = []\<rparr>],
      warnings = [MarkerMissing, MimetypeMissing], deferred = [],
      io_log = [(ZipCreate ''a.xml'', True), (SrcOpen [''a.xml''], True), (Copy ''a.xml'', True),
                (ZipCreate ''b.xml'', True), (SrcOpen [''b.xml''], False)]\<rparr>)"
  by (simp add: run_defs plain_world_def faulty_tree_def)

text \<open>Claim C5. Once the output file is created, the run succeeds exactly when no call
  fails for the mimetype entry or anywhere in the walk. A failure in the walk comes back
  wrapped as a walk error. On every failure the failed call is the last input or output
  call of the run and all calls before it succeeded, so nothing is retried or continued,
  and the output file stays in place.\<close>

theorem io_failure_aborts:
  assumes "source w = Some d" "IsDir d" "create_ok w"
  shows "(fst (createXLSXFromDir w) = Returned None \<longleftrightarrow> mimetype_ok w d \<and> walk_ok w [] d) \<and>
         (mimetype_ok w d \<and> \<not> walk_ok w [] d \<longrightarrow>
            (\<exists>c. fst (createXLSXFromDir w) = Returned (Some (WalkError c)))) \<and>
         (fst (createXLSXFromDir w) \<noteq> Returned None \<longrightarrow>
            (\<exists>l k. io_log (snd (createXLSXFromDir w)) = l @ [(k, False)] \<and> (\<forall>x\<in>set l. snd x))) \<and>
         (fst (createXLSXFromDir w) = Returned None \<longrightarrow>
            (\<forall>x\<in>set (io_log (snd (createXLSXFromDir w))). snd x)) \<and>
         out_created (snd (createXLSXFromDir w))"
proof -
  note u = create_unfold[OF assms]
  obtain r t where B: "body w d (started d) = (r, t)" by force
  have res: "fst (createXLSXFromDir w) = Returned r" and log: "io_log (snd (createXLSXFromDir w)) = io_log t"
    using u B by (simp_all add: run_deferred_keeps)
  have 1: "fst (createXLSXFromDir w) = Returned None \<longleftrightarrow> mimetype_ok w d \<and> walk_ok w [] d"
    using res body_ok_iff[of w d "started d"] B by simp
  have 2: "\<exists>c. fst (createXLSXFromDir w) = Returned (Some (WalkError c))"
    if "mimetype_ok w d \<and> \<not> walk_ok w [] d"
    using body_walk_error[of w d "started d"] that res B by auto
  have 3: "\<exists>l k. io_log (snd (createXLSXFromDir w)) = l @ [(k, False)] \<and> (\<forall>x\<in>set l. snd x)"
    if "fst (createXLSXFromDir w) \<noteq> Returned None"
    using body_log[of w d] B res log that by (cases r) auto
  have 4: "\<forall>x\<in>set (io_log (snd (createXLSXFromDir w))). snd x"
    if "fst (createXLSXFromDir w) = Returned None"
    using body_log[of w d] B res log that by (cases r) auto
  have 5: "out_created (snd (createXLSXFromDir w))"
    using u body_handles[of w d] by (simp add: run_deferred_keeps)
  show ?thesis using 1 2 3 4 5 by blast
qed

theorem io_failure_aborts_witness:
  "source (plain_world (Some faulty_tree)) = Some faulty_tree \<and> IsDir faulty_tree \<and>
   create_ok (plain_world (Some faulty_tree)) \<and>
   mimetype_ok (plain_world (Some faulty_tree)) faulty_tree \<and>
   \<not> walk_ok (plain_world (Some faulty_tree)) [] faulty_tree \<and>
   (\<exists>c. fst (createXLSXFromDir (plain_world (Some faulty_tree))) = Returned (Some (WalkError c))) \<and>
   (\<exists>l k. io_log (snd (createXLSXFromDir (plain_world (Some faulty_tree)))) = l @ [(k, False)] \<and>
          (\<forall>x\<in>set l. snd x)) \<and>
   out_created (snd (createXLSXFromDir (plain_world (Some faulty_tree))))"
proof -
  have a: "source (plain_world (Some faulty_tree)) = Some faulty_tree"
    by (simp add: plain_world_def)
  have b: "IsDir faulty_tree" by (simp add: faulty_tree_def)
  have c: "create_ok (plain_world (Some faulty_tree))" by (simp add: plain_world_def)
  have d: "mimetype_ok (plain_world (Some faulty_tree)) faulty_tree"
    by (simp add: mimetype_ok_def faulty_tree_def)
  have e: "\<not> walk_ok (plain_world (Some faulty_tree)) [] faulty_tree"
    by (simp add: faulty_tree_def file_ok_def Base_def)
  have f: "fst (createXLSXFromDir (plain_world (Some faulty_tree))) \<noteq> Returned None"
    by (simp add: faulty_run)
  show ?thesis using io_failure_aborts[OF a b c] a b c d e f by blast
qed

lemma sorted_names_unique:
  fixes es es' :: "(string \<times> 'a) list"
  assumes "distinct (map fst es)" "distinct (map fst es')" "set (map fst es) = set (map fst es')"
  shows "map fst (sort_key fst es) = map fst (sort_key fst es')"
proof (rule sorted_distinct_set_unique)
  show "sorted (map fst (sort_key fst es))" "sorted (map fst (sort_key fst es'))"
    by (rule sorted_sort_key)+
  have "mset (map fst (sort_key fst es)) = mset (map fst es)" by simp
  then show "distinct (map fst (sort_key fst es))"
    using assms(1) by (metis mset_eq_imp_distinct_iff)
  have "mset (map fst (sort_key fst es')) = mset (map fst es')" by simp
  then show "distinct (map fst (sort_key fst es'))"
    using assms(2) by (metis mset_eq_imp_distinct_iff)
  show "set (map fst (sort_key fst es)) = set (map fst (sort_key fst es'))"
    using assms(3) by simp
qed

lemma sorted_entries_related:
  assumes "same_files (Dir r es) (Dir r' es')"
  shows "list_all2 (\<lambda>e e'. fst e = fst e' \<and> same_files (snd e) (snd e'))
           (sort_key fst es) (sort_key fst es')"
proof -
  let ?xs = "sort_key fst es" and ?ys = "sort_key fst es'"
  have k: "map fst ?xs = map fst ?ys"
    using assms by (intro sorted_names_unique) simp_all
  then have len: "length ?xs = length ?ys" by (metis length_map)
  have rel: "same_files (snd e) (snd e')" if "e \<in> set es" "e' \<in> set es'" "fst e = fst e'" for e e'
    using assms that by (auto simp: list_all_iff)
  show ?thesis
  proof (rule list_all2_all_nthI[OF len])
    fix i assume i: "i < length ?xs"
    then have "?xs ! i \<in> set es" "?ys ! i \<in> set es'"
      using len by (metis nth_mem set_sort)+
    moreover have "fst (?xs ! i) = fst (?ys ! i)"
      using k i len by (metis nth_map)
    ultimately show "fst (?xs ! i) = fst (?ys ! i) \<and> same_files (snd (?xs ! i)) (snd (?ys ! i))"
      using rel by blast
  qed
qed

lemma same_files_walkFn:
  "same_files n n' \<Longrightarrow> walkFn w p n e s = walkFn w p n' e s"
  by (cases n; cases n') (simp_all add: walkFn_def)

lemma same_files_walk:
  "\<forall>n'. same_files n n' \<longrightarrow> walk (walkFn w) p n s = walk (walkFn w) p n' s"
  "\<forall>es'. list_all2 (\<lambda>e e'. fst e = fst e' \<and> same_files (snd e) (snd e')) es es' \<longrightarrow>
     walk_names (walkFn w) p es s = walk_names (walkFn w) p es' s"
proof (induction "walkFn w" p n s and "walkFn w" p es s rule: walk_walk_names.induct)
  case (1 p r es s)
  show ?case
  proof (intro allI impI)
    fix n' assume sf: "same_files (Dir r es) n'"
    then obtain es' where n': "n' = Dir r es'" by (cases n') auto
    have rel: "list_all2 (\<lambda>e e'. fst e = fst e' \<and> same_files (snd e) (snd e'))
           (sort_key fst es) (sort_key fst es')"
      using sorted_entries_related sf n' by blast
    have fn: "walkFn w p (Dir r es) e s = walkFn w p (Dir r es') e s" for e
      using same_files_walkFn sf n' by blast
    show "walk (walkFn w) p (Dir r es) s = walk (walkFn w) p n' s"
    proof (cases r)
      case True
      have "walk_names (walkFn w) p (sort_key fst es) s = walk_names (walkFn w) p (sort_key fst es') s"
        using "1.hyps"[OF refl refl, of None s] True rel by (simp add: walkFn_dir)
      then show ?thesis using True n' by (simp add: walkFn_dir)
    next
      case False
      then show ?thesis using n' fn by simp
    qed
  qed
next
  case (7 p e rest s)
  show ?case
  proof (intro allI impI)
    fix es' assume "list_all2 (\<lambda>e e'. fst e = fst e' \<and> same_files (snd e) (snd e')) (e # rest) es'"
    then obtain e' rest' where es': "es' = e' # rest'" and h: "fst e = fst e'" "same_files (snd e) (snd e')"
      and r: "list_all2 (\<lambda>e e'. fst e = fst e' \<and> same_files (snd e) (snd e')) rest rest'"
      by (auto simp: list_all2_Cons1)
    have first: "walk (walkFn w) (p @ [fst e]) (snd e) s = walk (walkFn w) (p @ [fst e']) (snd e') s"
      using "7.hyps"(1) h by simp
    obtain r1 s1 where Pair: "walk (walkFn w) (p @ [fst e]) (snd e) s = (r1, s1)" by force
    show "walk_names (walkFn w) p (e # rest) s = walk_names (walkFn w) p es' s"
    proof (cases r1)
      case None
      then show ?thesis using "7.hyps"(2)[OF Pair[symmetric] None] r Pair first es' by simp
    next
      case (Some c)
      then show ?thesis using Pair first es' by simp
    qed
  qed
qed (auto elim: same_files.elims)

lemma same_files_child:
  assumes "same_files (Dir r es) (Dir r' es')"
  shows "(map_of es nm = None \<longleftrightarrow> map_of es' nm = None) \<and>
         (\<forall>n n'. map_of es nm = Some n \<longrightarrow> map_of es' nm = Some n' \<longrightarrow> same_files n n')"
proof -
  have "nm \<in> fst ` set es \<longleftrightarrow> nm \<in> fst ` set es'" using assms by simp
  then have a: "map_of es nm = None \<longleftrightarrow> map_of es' nm = None" by (simp add: map_of_eq_None_iff)
  have "same_files n n'" if "map_of es nm = Some n" "map_of es' nm = Some n'" for n n'
  proof -
    have "(nm, n) \<in> set es" "(nm, n') \<in> set es'" using that by (auto dest: map_of_SomeD)
    moreover have "\<forall>e\<in>set es. \<forall>e'\<in>set es'. fst e = fst e' \<longrightarrow> same_files (snd e) (snd e')"
      using assms by (simp add: list_all_iff)
    ultimately show ?thesis by fastforce
  qed
  then show ?thesis using a by blast
qed

lemma walkFn_source: "walkFn (w\<lparr>source := x\<rparr>) = walkFn w"
  by (intro ext)
     (auto simp: walkFn_def zip_Create_def zip_CreateHeader_def io_Copy_def Let_def
           split: option.splits prod.splits)

lemma addMimetype_source: "addMimetype (w\<lparr>source := x\<rparr>) = addMimetype w"
  by (intro ext)
     (auto simp: addMimetype_def zip_CreateHeader_def io_Copy_def Let_def
           split: option.splits prod.splits)

lemma same_files_os_Open: "same_files n n' \<Longrightarrow> os_Open n = os_Open n'"
  by (cases n; cases n') simp_all

lemma same_files_addMimetype:
  assumes "same_files d d'"
  shows "addMimetype w d s = addMimetype w d' s"
proof (cases d)
  case (Dir r es)
  then obtain es' where d': "d' = Dir r es'" using assms by (cases d') auto
  note c = same_files_child[OF assms[unfolded Dir d'], of "''mimetype''"]
  show ?thesis
  proof (cases "map_of es ''mimetype''")
    case None
    then show ?thesis using c Dir d' by (simp add: addMimetype_def)
  next
    case (Some n)
    then obtain n' where n': "map_of es' ''mimetype'' = Some n'" using c by auto
    then have "os_Open n = os_Open n'" using c Some same_files_os_Open by blast
    then show ?thesis using Some n' Dir d'
      by (simp add: addMimetype_def split: option.splits prod.splits)
  qed
next
qed (use assms in \<open>auto elim: same_files.elims\<close>)

text \<open>Claim C8. For one state of the source directory the run is the same, result and
  archive entries in the same order, whatever the order in which the operating system
  lists the directories.\<close>

theorem walk_order_deterministic:
  assumes "same_files d d'"
  shows "createXLSXFromDir (w\<lparr>source := Some d\<rparr>) = createXLSXFromDir (w\<lparr>source := Some d'\<rparr>)"
proof (cases d)
  case (Dir r es)
  then obtain es' where d': "d' = Dir r es'" using assms by (cases d') auto
  note c = same_files_child[OF assms[unfolded Dir d'], of "''[Content_Types].xml''"]
  have st: "started d = started d'" using c Dir d' by (simp add: started_def)
  have am: "addMimetype (w\<lparr>source := Some d\<rparr>) d s = addMimetype (w\<lparr>source := Some d'\<rparr>) d' s" for s
    using same_files_addMimetype[OF assms, of w s] by (simp add: addMimetype_source)
  have wk: "walk (walkFn (w\<lparr>source := Some d\<rparr>)) [] d s = walk (walkFn (w\<lparr>source := Some d'\<rparr>)) [] d' s" for s
    using same_files_walk(1)[of d w "[]" s] assms by (simp add: walkFn_source)
  have bd: "body (w\<lparr>source := Some d\<rparr>) d s = body (w\<lparr>source := Some d'\<rparr>) d' s" for s
    by (simp add: body_def am wk split: prod.splits option.splits)
  show ?thesis
  proof (cases "create_ok w")
    case True
    have "createXLSXFromDir (w\<lparr>source := Some d\<rparr>) =
      (Returned (fst (body (w\<lparr>source := Some d\<rparr>) d (started d))),
       run_deferred (snd (body (w\<lparr>source := Some d\<rparr>) d (started d))))"
      using True Dir by (intro create_unfold) simp_all
    moreover have "createXLSXFromDir (w\<lparr>source := Some d'\<rparr>) =
      (Returned (fst (body (w\<lparr>source := Some d'\<rparr>) d' (started d'))),
       run_deferred (snd (body (w\<lparr>source := Some d'\<rparr>) d' (started d'))))"
      using True d' by (intro create_unfold) simp_all
    ultimately show ?thesis by (simp add: bd st)
  next
    case False
    then show ?thesis using Dir d' c by (simp add: createXLSXFromDir_def)
  qed
qed (use assms in \<open>auto elim: same_files.elims\<close>)

theorem walk_order_deterministic_witness:
  "same_files sheet_tree shuffled_tree \<and> sheet_tree \<noteq> shuffled_tree \<and>
   createXLSXFromDir (plain_world (Some sheet_tree)) =
     createXLSXFromDir (plain_world (Some shuffled_tree))"
proof -
  have h: "same_files sheet_tree shuffled_tree"
    by (simp add: sheet_tree_def shuffled_tree_def insert_commute)
  have d: "sheet_tree \<noteq> shuffled_tree" by (simp add: sheet_tree_def shuffled_tree_def)
  show ?thesis using walk_order_deterministic[OF h, of "plain_world None"] h d
    by (simp add: plain_world_def)
qed

text \<open>Claim C2 fails on the code. The walk skips every file whose last path component is
  mimetype, not only the one directly under the root: for a tree whose only regular file
  is sub/mimetype the run succeeds and the archive has no entry.\<close>

theorem nested_mimetype_dropped:
  "regular_files [] nested_tree = [([''sub'', ''mimetype''], [1])] \<and>
   createXLSXFromDir (plain_world (Some nested_tree)) =
     (Returned None,
      \<lparr>out_created = True, out_open = False, zip_open = False, finalized = True, src_open = 0,
       entries = [], warnings = [MarkerMissing, MimetypeMissing], deferred = [], io_log = []\<rparr>)"
  by (simp add: run_defs plain_world_def nested_tree_def regular_files_def)

text \<open>Claim C4 fails on the code, by the same skip: for a root-level mimetype file and
  three other regular files, one of them sub/mimetype, the run succeeds and the archive has
  three entries instead of four.\<close>

theorem four_files_three_entries:
  "map (\<lambda>x. (fst x, length (snd x))) (regular_files [] four_files_tree) =
     [([''mimetype''], 3), ([''a.xml''], 1), ([''b.xml''], 2), ([''sub'', ''mimetype''], 4)] \<and>
   fst (createXLSXFromDir (plain_world (Some four_files_tree))) = Returned None \<and>
   entries (snd (createXLSXFromDir (plain_world (Some four_files_tree)))) =
     [\<lparr>Name = ''mimetype'', Method = Store, Content = [7, 7, 7]\<rparr>,
      \<lparr>Name = ''a.xml'', Method = Deflate, Content = [1]\<rparr>,
      \<lparr>Name = ''b.xml'', Method = Deflate, Content = [2, 2]\<rparr>]"
  by (simp add: run_defs plain_world_def four_files_tree_def regular_files_def)

end
